theory Spec2Isabelle
  imports Complex_Main
begin

unbundle bit_operations_syntax

section \<open>The Akai MPD218 control device driver\<close>

text \<open>
  A shallow embedding of \<^verbatim>\<open>zynthian_ctrldev_akai_mpd_218.py\<close>. Python's unbounded
  integers are \<^typ>\<open>int\<close>; \<^verbatim>\<open>//\<close> and \<^verbatim>\<open>%\<close> with the positive divisor 4 are
  \<^verbatim>\<open>div\<close> and \<^verbatim>\<open>mod\<close> (both round towards minus infinity), \<^verbatim>\<open>>>\<close> is
  \<^verbatim>\<open>drop_bit\<close> and \<^verbatim>\<open>&\<close> is \<^verbatim>\<open>AND\<close> (two's complement on both sides).
  The sequencer and the mixer are outside the driver: every call the driver makes to them
  is recorded, in order, in a list of calls, and the one call whose result the driver
  reads (\<^verbatim>\<open>get_pad_from_xy\<close>) takes its answer from a function given as a parameter.
  The collaborators are taken to return: an exception raised inside one of them is not
  part of the model. The \<^verbatim>\<open>logging.debug\<close> line of \<^verbatim>\<open>pressureChange\<close> formats two integers and has no
  other effect; it is left out.
\<close>

subsection \<open>Class constants\<close>

definition PAD_BANK_A_NOTE_PAD_START :: int where "PAD_BANK_A_NOTE_PAD_START = 36"
definition PAD_BANK_B_NOTE_PAD_START :: int where "PAD_BANK_B_NOTE_PAD_START = 52"
definition PAD_BANK_C_NOTE_PAD_START :: int where "PAD_BANK_C_NOTE_PAD_START = 68"

definition PAD_BANK_A_NOTE_PAD_END :: int where "PAD_BANK_A_NOTE_PAD_END = 51"
definition PAD_BANK_B_NOTE_PAD_END :: int where "PAD_BANK_B_NOTE_PAD_END = 67"
definition PAD_BANK_C_NOTE_PAD_END :: int where "PAD_BANK_C_NOTE_PAD_END = 83"

definition CTRL_BANK_A_NOTE_DIAL_START :: int where "CTRL_BANK_A_NOTE_DIAL_START = 3"
definition CTRL_BANK_B_NOTE_DIAL_START :: int where "CTRL_BANK_B_NOTE_DIAL_START = 16"
definition CTRL_BANK_C_NOTE_DIAL_START :: int where "CTRL_BANK_C_NOTE_DIAL_START = 22"

definition CTRL_BANK_A_NOTE_DIAL_END :: int where "CTRL_BANK_A_NOTE_DIAL_END = 15"
definition CTRL_BANK_B_NOTE_DIAL_END :: int where "CTRL_BANK_B_NOTE_DIAL_END = 21"
definition CTRL_BANK_C_NOTE_DIAL_END :: int where "CTRL_BANK_C_NOTE_DIAL_END = 27"

definition MAX_DIAL :: int where "MAX_DIAL = 127"
definition MAX_PRESSURE :: int where "MAX_PRESSURE = 127"

definition PADS_IN_ROW :: int where "PADS_IN_ROW = 4"
definition PADS_IN_COLUMN :: int where "PADS_IN_COLUMN = 4"

text \<open>
  Modelled from the spec: the three message-type constants \<^verbatim>\<open>CONST.MIDI_NOTE_ON\<close>,
  \<^verbatim>\<open>CONST.MIDI_NOTE_OFF\<close> and \<^verbatim>\<open>CONST.MIDI_CC\<close> are imported from
  \<^verbatim>\<open>zynthian_ctrldev_base_extended\<close>, which is not part of the sources at hand. The
  specification gives the status high nibbles: note-off 0x8, note-on 0x9,
  control-change 0xB.
\<close>

definition MIDI_NOTE_OFF :: int where "MIDI_NOTE_OFF = 0x8"
definition MIDI_NOTE_ON :: int where "MIDI_NOTE_ON = 0x9"
definition MIDI_CC :: int where "MIDI_CC = 0xB"

subsection \<open>State, collaborators and calls\<close>

text \<open>
  The driver's only field of its own is \<^verbatim>\<open>currentNotePressed\<close>, \<^verbatim>\<open>-1\<close> in a fresh
  instance. Of the sequencer the driver reads the attribute \<^verbatim>\<open>bank\<close> and the result
  of \<^verbatim>\<open>get_pad_from_xy\<close>.
\<close>

record driver =
  currentNotePressed :: int

definition init_driver :: driver where
  "init_driver = \<lparr>currentNotePressed = -1\<rparr>"

record zynseq =
  zynseq_bank :: int
  get_pad_from_xy :: "int \<Rightarrow> int \<Rightarrow> int"

text \<open>
  The level handed to the mixer is a Python \<^verbatim>\<open>float\<close>; the call records the value of
  that double.
\<close>

datatype call =
    GetPadFromXY int int
  | TogglePlayState int int
  | SetPlayState int int int
  | SetLevel int rat

datatype error = IndexError | ZeroDivisionError | OverflowError

subsection \<open>Python's division of two integers\<close>

text \<open>
  \<^verbatim>\<open>ccval / self.MAX_DIAL\<close> is Python's true division of two \<^verbatim>\<open>int\<close>s. Its result is a
  \<^verbatim>\<open>float\<close>, an IEEE 754 binary64 number: the double nearest to the exact quotient, a
  tie going to the double with the even significand. A zero divisor raises
  \<^verbatim>\<open>ZeroDivisionError\<close>, and a quotient that rounds to \<open>2 ^ 1024\<close> or beyond in magnitude
  raises \<^verbatim>\<open>OverflowError\<close>; the division yields no infinity and no NaN. A double is
  represented by its value, a rational; the sign of a zero is not kept. Python gives
  \<^verbatim>\<open>-0.0\<close> for a zero numerator over a negative divisor and for a negative quotient too
  small for a double; with the divisor 127 a zero comes from the numerator 0 alone and is
  \<^verbatim>\<open>0.0\<close>.

  A double has 53 significant bits: a number \<open>x\<close> with \<open>2 ^ e \<le> \<bar>x\<bar> < 2 ^ (e + 1)\<close> is
  rounded to a multiple of \<open>2 ^ (e - 52)\<close>, and below the normal range to a multiple of
  \<open>2 ^ (-1074)\<close>.
\<close>

fun bit_length :: "nat \<Rightarrow> nat" where
  "bit_length n = (if n = 0 then 0 else Suc (bit_length (n div 2)))"

declare bit_length.simps [simp del]

text \<open>The \<open>e\<close> with \<open>2 ^ e \<le> x < 2 ^ (e + 1)\<close>, for a positive \<open>x\<close>.\<close>

definition floor_log2 :: "rat \<Rightarrow> int" where
  "floor_log2 x =
     (let (a, b) = quotient_of x;
          e = int (bit_length (nat a)) - int (bit_length (nat b))
      in if power_int 2 e \<le> x then e else e - 1)"

definition round_half_even :: "rat \<Rightarrow> int" where
  "round_half_even x =
     (let f = \<lfloor>x\<rfloor>; d = x - of_int f
      in if d < 1 / 2 then f else if 1 / 2 < d then f + 1
         else if even f then f else f + 1)"

definition to_double :: "rat \<Rightarrow> error + rat" where
  "to_double x =
     (if x = 0 then Inr 0
      else
        (let k = max (floor_log2 \<bar>x\<bar> - 52) (-1074);
             r = of_int (round_half_even (x / power_int 2 k)) * power_int 2 k
         in if power_int 2 1024 \<le> \<bar>r\<bar> then Inl OverflowError else Inr r))"

definition int_truediv :: "int \<Rightarrow> int \<Rightarrow> error + rat" where
  "int_truediv a b =
     (if b = 0 then Inl ZeroDivisionError else to_double (of_int a / of_int b))"

subsection \<open>Note decoding\<close>

definition get_note_xy :: "int \<Rightarrow> int \<times> int \<times> string" where
  "get_note_xy note =
     (let note_start_offset = 0;
          bank = '''';
          (bank, note_start_offset) =
            (if PAD_BANK_A_NOTE_PAD_START \<le> note \<and> note \<le> PAD_BANK_A_NOTE_PAD_END
             then (''A'', PAD_BANK_A_NOTE_PAD_START) else (bank, note_start_offset));
          (bank, note_start_offset) =
            (if PAD_BANK_B_NOTE_PAD_START \<le> note \<and> note \<le> PAD_BANK_B_NOTE_PAD_END
             then (''B'', PAD_BANK_B_NOTE_PAD_START) else (bank, note_start_offset));
          (bank, note_start_offset) =
            (if PAD_BANK_C_NOTE_PAD_START \<le> note \<and> note \<le> PAD_BANK_C_NOTE_PAD_END
             then (''C'', PAD_BANK_C_NOTE_PAD_START) else (bank, note_start_offset));
          row = 4 - ((note - note_start_offset) div PADS_IN_ROW) - 1;
          col = (note - note_start_offset) mod PADS_IN_COLUMN
      in (col, row, bank))"

subsection \<open>Handlers\<close>

text \<open>
  Each handler takes the driver and returns it, updated, with the calls it made;
  \<^verbatim>\<open>cc_change\<close>, which divides, returns that or the exception of the division.
  \<^verbatim>\<open>note_on\<close> returns \<^verbatim>\<open>True\<close> after a toggle and \<^verbatim>\<open>None\<close> otherwise; its only
  caller drops the value, and so does the model.
\<close>

definition note_on :: "zynseq \<Rightarrow> driver \<Rightarrow> int \<Rightarrow> int \<Rightarrow> int \<Rightarrow> driver \<times> call list" where
  "note_on zs self note channel velocity =
     (let (col, row, bank) = get_note_xy note;
          self = self\<lparr>currentNotePressed := note\<rparr>;
          pad = get_pad_from_xy zs col row
      in if pad \<ge> 0
         then (self, [GetPadFromXY col row, TogglePlayState (zynseq_bank zs) pad])
         else (self, [GetPadFromXY col row]))"

definition note_off :: "driver \<Rightarrow> int \<Rightarrow> int \<Rightarrow> driver \<times> call list" where
  "note_off self note channel = (self\<lparr>currentNotePressed := -1\<rparr>, [])"

definition pressureChange :: "zynseq \<Rightarrow> driver \<Rightarrow> int \<Rightarrow> int \<Rightarrow> driver \<times> call list" where
  "pressureChange zs self channel pressure =
     (if pressure = MAX_PRESSURE
      then (self,
            [SetPlayState (zynseq_bank zs) (currentNotePressed self) 0,
             SetPlayState (zynseq_bank zs) (currentNotePressed self + 1) 0,
             SetPlayState (zynseq_bank zs) (currentNotePressed self + 2) 0,
             SetPlayState (zynseq_bank zs) (currentNotePressed self + 3) 0])
      else (self, []))"

text \<open>The local variable \<^verbatim>\<open>mixer_channel\<close> of \<^verbatim>\<open>cc_change\<close>, as it stands before the last test.\<close>

definition cc_mixer_channel :: "int \<Rightarrow> int" where
  "cc_mixer_channel ccnum =
     (let mixer_channel = -1;
          mixer_channel =
            (if CTRL_BANK_A_NOTE_DIAL_START \<le> ccnum \<and> ccnum \<le> CTRL_BANK_A_NOTE_DIAL_END
             then (let mixer_channel = (if ccnum = 3 then 0 else mixer_channel);
                       mixer_channel = (if ccnum = 9 then 1 else mixer_channel);
                       mixer_channel = (if ccnum = 12 then 2 else mixer_channel);
                       mixer_channel =
                         (if 13 \<le> ccnum \<and> ccnum \<le> CTRL_BANK_A_NOTE_DIAL_END
                          then ccnum - CTRL_BANK_A_NOTE_DIAL_START else mixer_channel)
                   in mixer_channel)
             else mixer_channel);
          mixer_channel =
            (if CTRL_BANK_B_NOTE_DIAL_START \<le> ccnum \<and> ccnum \<le> CTRL_BANK_B_NOTE_DIAL_END
             then ccnum - CTRL_BANK_B_NOTE_DIAL_START else mixer_channel);
          mixer_channel =
            (if CTRL_BANK_C_NOTE_DIAL_START \<le> ccnum \<and> ccnum \<le> CTRL_BANK_C_NOTE_DIAL_END
             then ccnum - CTRL_BANK_C_NOTE_DIAL_START else mixer_channel)
      in mixer_channel)"

text \<open>
  The division comes before the call: when it raises, \<^verbatim>\<open>set_level\<close> is not called and
  the exception leaves \<^verbatim>\<open>cc_change\<close>.
\<close>

definition cc_change :: "driver \<Rightarrow> int \<Rightarrow> int \<Rightarrow> error + (driver \<times> call list)" where
  "cc_change self ccnum ccval =
     (let mixer_channel = cc_mixer_channel ccnum
      in if mixer_channel > -1
         then (case int_truediv ccval MAX_DIAL of
                 Inl e \<Rightarrow> Inl e
               | Inr level \<Rightarrow> Inr (self, [SetLevel mixer_channel level]))
         else Inr (self, []))"

subsection \<open>Dispatch\<close>

text \<open>
  \<^verbatim>\<open>midi_event\<close> reads \<^verbatim>\<open>ev[0]\<close>, \<^verbatim>\<open>ev[1]\<close> and \<^verbatim>\<open>ev[2]\<close> before it looks at the
  message type, so an event shorter than three entries raises \<^verbatim>\<open>IndexError\<close>.
\<close>

definition midi_event :: "zynseq \<Rightarrow> driver \<Rightarrow> int list \<Rightarrow> error + (driver \<times> call list)" where
  "midi_event zs self ev =
     (if length ev < 3 then Inl IndexError
      else
        (let evtype = (drop_bit 4 (ev ! 0)) AND 0x0F;
             note = (ev ! 1) AND 0x7F;
             velocity = (ev ! 2) AND 0x7F;
             channel = (ev ! 0) AND 0x0F
         in if evtype = MIDI_NOTE_ON then Inr (note_on zs self note channel velocity)
            else if evtype = MIDI_NOTE_OFF then Inr (note_off self note channel)
            else if evtype = MIDI_CC then
              (let ccnum = (ev ! 1) AND 0x7F;
                   ccval = (ev ! 2) AND 0x7F
               in cc_change self ccnum ccval)
            else if evtype = 0xD then Inr (pressureChange zs self channel note)
            else Inr (self, [])))"

text \<open>
  The host delivers events one at a time, each handled to completion before the next;
  an exception ends the run. The calls of the whole run are collected in order.
\<close>

fun midi_events :: "zynseq \<Rightarrow> driver \<Rightarrow> int list list \<Rightarrow> error + (driver \<times> call list)" where
  "midi_events zs self [] = Inr (self, [])"
| "midi_events zs self (ev # evs) =
     (case midi_event zs self ev of
        Inl e \<Rightarrow> Inl e
      | Inr (self', cs) \<Rightarrow>
          (case midi_events zs self' evs of
             Inl e \<Rightarrow> Inl e
           | Inr (self'', cs') \<Rightarrow> Inr (self'', cs @ cs')))"

section \<open>Properties\<close>

subsection \<open>Unfolding the constants\<close>

lemmas pad_consts =
  PAD_BANK_A_NOTE_PAD_START_def PAD_BANK_B_NOTE_PAD_START_def PAD_BANK_C_NOTE_PAD_START_def
  PAD_BANK_A_NOTE_PAD_END_def PAD_BANK_B_NOTE_PAD_END_def PAD_BANK_C_NOTE_PAD_END_def
  PADS_IN_ROW_def PADS_IN_COLUMN_def

lemmas dial_consts =
  CTRL_BANK_A_NOTE_DIAL_START_def CTRL_BANK_B_NOTE_DIAL_START_def
  CTRL_BANK_C_NOTE_DIAL_START_def CTRL_BANK_A_NOTE_DIAL_END_def
  CTRL_BANK_B_NOTE_DIAL_END_def CTRL_BANK_C_NOTE_DIAL_END_def

lemmas midi_consts = MIDI_NOTE_OFF_def MIDI_NOTE_ON_def MIDI_CC_def

subsection \<open>Rounding to a double\<close>

lemma bit_length_pos: "0 < n \<Longrightarrow> 0 < bit_length n"
  by (subst bit_length.simps) simp

lemma bit_length_mono: "a \<le> b \<Longrightarrow> bit_length a \<le> bit_length b"
proof (induction a arbitrary: b rule: bit_length.induct)
  case (1 n)
  show ?case
  proof (cases "n = 0")
    case True
    then show ?thesis by (simp add: bit_length.simps)
  next
    case False
    with 1(2) have b: "b \<noteq> 0" by simp
    have "n div 2 \<le> b div 2" using 1(2) by (simp add: div_le_mono)
    with 1(1) False have "bit_length (n div 2) \<le> bit_length (b div 2)" by simp
    moreover have "bit_length n = Suc (bit_length (n div 2))"
      using False by (subst bit_length.simps) simp
    moreover have "bit_length b = Suc (bit_length (b div 2))"
      using b by (subst bit_length.simps) simp
    ultimately show ?thesis by simp
  qed
qed

lemma bit_length_bounds: "0 < n \<Longrightarrow> 2 ^ (bit_length n - 1) \<le> n \<and> n < 2 ^ bit_length n"
proof (induction n rule: bit_length.induct)
  case (1 n)
  have bl: "bit_length n = Suc (bit_length (n div 2))"
    using 1(2) by (subst bit_length.simps) simp
  show ?case
  proof (cases "n div 2 = 0")
    case True
    with 1(2) have "n = 1" by (simp add: div_eq_0_iff)
    then show ?thesis by (simp add: bit_length.simps)
  next
    case False
    then have pos: "0 < n div 2" by simp
    from 1(1) 1(2) pos
    have IH: "2 ^ (bit_length (n div 2) - 1) \<le> n div 2 \<and> n div 2 < 2 ^ bit_length (n div 2)"
      by simp
    from bit_length_pos [OF pos] obtain j where j: "bit_length (n div 2) = Suc j"
      by (cases "bit_length (n div 2)") auto
    from IH j have "2 ^ j \<le> n div 2" "n div 2 < 2 ^ Suc j" by simp_all
    then have "2 * 2 ^ j \<le> n" "n < 2 * 2 ^ Suc j" by linarith+
    then show ?thesis by (simp add: bl j)
  qed
qed

lemma round_half_even_of_int: "round_half_even (of_int n) = n"
  by (simp add: round_half_even_def)

lemma round_half_even_le: "x \<le> of_int n \<Longrightarrow> round_half_even x \<le> n"
proof -
  assume le: "x \<le> of_int n"
  show ?thesis
  proof (cases "x = of_int n")
    case True
    then show ?thesis by (simp add: round_half_even_of_int)
  next
    case False
    with le have "x < of_int n" by simp
    then have "\<lfloor>x\<rfloor> < n" by (simp add: floor_less_iff)
    then show ?thesis by (simp add: round_half_even_def Let_def)
  qed
qed

lemma round_half_even_ge: "of_int n \<le> x \<Longrightarrow> n \<le> round_half_even x"
proof -
  assume "of_int n \<le> x"
  then have "n \<le> \<lfloor>x\<rfloor>" by (simp add: le_floor_iff)
  then show ?thesis by (simp add: round_half_even_def Let_def)
qed

lemma round_half_even_near: "\<bar>of_int (round_half_even x) - x\<bar> \<le> 1 / 2"
proof -
  have "of_int \<lfloor>x\<rfloor> \<le> x" "x < of_int \<lfloor>x\<rfloor> + 1" by linarith+
  then show ?thesis
    by (auto simp add: round_half_even_def Let_def abs_le_iff)
qed


lemma rat_of_nat_bounds:
  assumes "0 < k" and "2 ^ m \<le> nat k" and "nat k < 2 ^ n"
  shows "(2::rat) ^ m \<le> of_int k \<and> of_int k < (2::rat) ^ n"
proof -
  have k: "(of_nat (nat k) :: rat) = of_int k" using assms(1) by simp
  have "(of_nat (2 ^ m) :: rat) \<le> of_nat (nat k)" using assms(2) by (simp only: of_nat_le_iff)
  moreover have "(of_nat (nat k) :: rat) < of_nat (2 ^ n)" using assms(3) by (simp only: of_nat_less_iff)
  ultimately show ?thesis by (simp add: k)
qed

lemma floor_log2_bounds:
  assumes "0 < x"
  shows "power_int 2 (floor_log2 x) \<le> x \<and> x < power_int 2 (floor_log2 x + 1)"
proof -
  obtain a b where q: "quotient_of x = (a, b)" by (cases "quotient_of x")
  have b: "0 < b" using q by (rule quotient_of_denom_pos)
  have x: "x = of_int a / of_int b" using q by (rule quotient_of_div)
  have a: "0 < a" using assms b x by (simp add: zero_less_divide_iff)
  define la where "la = bit_length (nat a)"
  define lb where "lb = bit_length (nat b)"
  define e where "e = int la - int lb"
  have la: "0 < la" and lb: "0 < lb"
    using a b by (simp_all add: la_def lb_def bit_length_pos)
  have ra: "(2::rat) ^ (la - 1) \<le> of_int a \<and> of_int a < (2::rat) ^ la"
    using bit_length_bounds [of "nat a"] a by (intro rat_of_nat_bounds) (simp_all add: la_def)
  have rb: "(2::rat) ^ (lb - 1) \<le> of_int b \<and> of_int b < (2::rat) ^ lb"
    using bit_length_bounds [of "nat b"] b by (intro rat_of_nat_bounds) (simp_all add: lb_def)
  have bpos: "(0::rat) < of_int b" using b by simp
  have up: "x < power_int 2 (e + 1)"
  proof -
    have "x < 2 ^ la / of_int b"
      unfolding x using ra bpos by (simp add: divide_strict_right_mono)
    also have "\<dots> \<le> 2 ^ la / 2 ^ (lb - 1)"
      using rb by (simp add: frac_le)
    also have "\<dots> = power_int 2 (int la - int (lb - 1))"
      by (simp add: power_int_diff)
    also have "int la - int (lb - 1) = e + 1"
      using lb by (simp add: e_def of_nat_diff)
    finally show ?thesis .
  qed
  have low: "power_int 2 (e - 1) < x"
  proof -
    have "e - 1 = int (la - 1) - int lb"
      using la by (simp add: e_def of_nat_diff)
    then have "power_int (2::rat) (e - 1) = power_int 2 (int (la - 1) - int lb)"
      by (rule arg_cong)
    also have "\<dots> = 2 ^ (la - 1) / 2 ^ lb"
      by (simp add: power_int_diff)
    also have "\<dots> < 2 ^ (la - 1) / of_int b"
      using rb bpos by (simp add: divide_strict_left_mono)
    also have "\<dots> \<le> x"
      unfolding x using ra bpos by (simp add: divide_right_mono)
    finally show ?thesis .
  qed
  have fl: "floor_log2 x = (if power_int 2 e \<le> x then e else e - 1)"
    by (simp add: floor_log2_def q la_def lb_def e_def)
  show ?thesis
    using up low by (auto simp add: fl)
qed

lemma floor_log2_unit:
  assumes "0 < x" and "x \<le> 1"
  shows "floor_log2 x \<le> 0"
proof (rule ccontr)
  assume "\<not> floor_log2 x \<le> 0"
  then have "1 \<le> floor_log2 x" by simp
  then have "power_int (2::rat) 1 \<le> power_int 2 (floor_log2 x)"
    by (intro power_int_increasing) simp_all
  with floor_log2_bounds [OF assms(1)] assms(2) show False by simp
qed

lemma to_double_unit:
  assumes "0 \<le> x" and "x \<le> 1"
  shows "\<exists>r. to_double x = Inr r \<and> 0 \<le> r \<and> r \<le> 1 \<and> \<bar>r - x\<bar> \<le> 1 / 2 ^ 53"
proof (cases "x = 0")
  case True
  then show ?thesis by (simp add: to_double_def)
next
  case False
  with assms have pos: "0 < x" by simp
  define k where "k = max (floor_log2 \<bar>x\<bar> - 52) (-1074)"
  define p :: rat where "p = power_int 2 k"
  define m where "m = round_half_even (x / p)"
  define r where "r = of_int m * p"
  have k: "k \<le> -52"
    using floor_log2_unit [OF pos assms(2)] pos by (simp add: k_def)
  have ppos: "0 < p" by (simp add: p_def)
  have p_le: "p \<le> 1 / 2 ^ 52"
  proof -
    have "p \<le> power_int 2 (-52)"
      unfolding p_def using k by (intro power_int_increasing) simp_all
    then show ?thesis by (simp add: power_int_minus_divide)
  qed
  have inv: "1 / p = of_int (2 ^ nat (- k))"
    using k by (simp add: p_def power_int_def field_simps)
  have m0: "0 \<le> m"
    unfolding m_def using pos ppos by (intro round_half_even_ge) simp
  have m1: "m \<le> 2 ^ nat (- k)"
  proof -
    have "x / p \<le> 1 / p" using assms(2) ppos by (simp add: divide_right_mono)
    then show ?thesis unfolding m_def inv by (rule round_half_even_le)
  qed
  have r0: "0 \<le> r" using m0 ppos by (simp add: r_def)
  have r1: "r \<le> 1"
  proof -
    have "of_int m * p \<le> of_int (2 ^ nat (- k)) * p"
      using m1 ppos by (intro mult_right_mono) simp_all
    also have "\<dots> = 1" using inv ppos by (simp add: field_simps)
    finally show ?thesis by (simp add: r_def)
  qed
  have near: "\<bar>r - x\<bar> \<le> 1 / 2 ^ 53"
  proof -
    have "\<bar>r - x\<bar> = \<bar>of_int m - x / p\<bar> * p"
      using ppos by (simp add: r_def abs_mult [symmetric] field_simps)
    also have "\<dots> \<le> 1 / 2 * p"
      using round_half_even_near [of "x / p"] ppos
      by (intro mult_right_mono) (simp_all add: m_def)
    also have "\<dots> \<le> 1 / 2 * (1 / 2 ^ 52)"
      using p_le by simp
    finally show ?thesis by simp
  qed
  have "\<not> power_int 2 1024 \<le> \<bar>r\<bar>"
  proof -
    have "\<bar>r\<bar> \<le> 1" using r0 r1 by simp
    moreover have "(1::rat) < power_int 2 1024" by simp
    ultimately show ?thesis by linarith
  qed
  then have "to_double x = Inr r"
    using False by (simp add: to_double_def Let_def k_def p_def m_def r_def)
  with r0 r1 near show ?thesis by blast
qed

lemma to_double_one: "to_double 1 = Inr 1"
proof -
  have "floor_log2 1 = 0"
    by (simp add: floor_log2_def bit_length.simps)
  then show ?thesis
    by (simp add: to_double_def Let_def round_half_even_def power_int_minus_divide)
qed

lemma floor_log2_eq:
  assumes "0 < x" and "power_int 2 e \<le> x" and "x < power_int 2 (e + 1)"
  shows "floor_log2 x = e"
proof (rule ccontr)
  assume ne: "floor_log2 x \<noteq> e"
  note fl = floor_log2_bounds [OF assms(1)]
  show False
  proof (cases "floor_log2 x < e")
    case True
    then have "power_int (2::rat) (floor_log2 x + 1) \<le> power_int 2 e"
      by (intro power_int_increasing) simp_all
    with fl assms(2) show False by simp
  next
    case False
    with ne have "power_int (2::rat) (e + 1) \<le> power_int 2 (floor_log2 x)"
      by (intro power_int_increasing) simp_all
    with fl assms(3) show False by simp
  qed
qed

lemma int_truediv_127_127: "int_truediv 127 127 = Inr 1"
  by (simp add: int_truediv_def to_double_one)

lemma int_truediv_0_127: "int_truediv 0 127 = Inr 0"
  by (simp add: int_truediv_def to_double_def)

lemma int_truediv_64_127:
  "int_truediv 64 127 = Inr (567382630219905 / 1125899906842624)"
proof -
  have e: "floor_log2 (64 / 127) = -1"
    by (rule floor_log2_eq) (simp_all add: power_int_minus_divide)
  have "\<lfloor>(576460752303423488::rat) / 127\<rfloor> = 4539061041759240"
    by (rule floor_unique) simp_all
  then have m: "round_half_even (576460752303423488 / 127) = 4539061041759240"
    by (simp add: round_half_even_def Let_def)
  show ?thesis
    by (simp add: int_truediv_def to_double_def Let_def e m power_int_minus_divide)
qed

lemma int_truediv_byte:
  assumes "0 \<le> c" and "c \<le> 127"
  shows "\<exists>r. int_truediv c 127 = Inr r \<and> 0 \<le> r \<and> r \<le> 1 \<and> \<bar>r - of_int c / 127\<bar> \<le> 1 / 2 ^ 53"
proof -
  have "(0::rat) \<le> of_int c / 127" "(of_int c :: rat) / 127 \<le> 1"
    using assms by simp_all
  from to_double_unit [OF this] show ?thesis
    by (simp add: int_truediv_def)
qed

lemma int_truediv_127_error:
  "int_truediv a 127 = Inl e \<Longrightarrow> e = OverflowError"
  by (simp add: int_truediv_def to_double_def Let_def split: if_splits)

lemma and_127_byte: "0 \<le> (x::int) AND 0x7F \<and> x AND 0x7F \<le> 127"
  by (simp add: AND_upper2')


subsection \<open>The handlers in closed form\<close>

lemma cc_mixer_channel_eq:
  "cc_mixer_channel ccnum =
     (if ccnum = 3 then 0 else if ccnum = 9 then 1 else if ccnum = 12 then 2
      else if ccnum = 13 then 10 else if ccnum = 14 then 11 else if ccnum = 15 then 12
      else if 16 \<le> ccnum \<and> ccnum \<le> 21 then ccnum - 16
      else if 22 \<le> ccnum \<and> ccnum \<le> 27 then ccnum - 22
      else -1)"
  by (simp add: cc_mixer_channel_def dial_consts Let_def)

lemma pressureChange_eq:
  "pressureChange zs self channel v =
     (self, if v = 127
            then [SetPlayState (zynseq_bank zs) (currentNotePressed self) 0,
                  SetPlayState (zynseq_bank zs) (currentNotePressed self + 1) 0,
                  SetPlayState (zynseq_bank zs) (currentNotePressed self + 2) 0,
                  SetPlayState (zynseq_bank zs) (currentNotePressed self + 3) 0]
            else [])"
  by (simp add: pressureChange_def MAX_PRESSURE_def)

text \<open>An event of at least three entries is dispatched on the high nibble of its first entry.\<close>

lemma midi_event_long:
  assumes "3 \<le> length ev"
  shows "midi_event zs self ev =
     (if drop_bit 4 (ev ! 0) AND 0x0F = 0x9
        then Inr (note_on zs self (ev ! 1 AND 0x7F) (ev ! 0 AND 0x0F) (ev ! 2 AND 0x7F))
      else if drop_bit 4 (ev ! 0) AND 0x0F = 0x8
        then Inr (note_off self (ev ! 1 AND 0x7F) (ev ! 0 AND 0x0F))
      else if drop_bit 4 (ev ! 0) AND 0x0F = 0xB
        then cc_change self (ev ! 1 AND 0x7F) (ev ! 2 AND 0x7F)
      else if drop_bit 4 (ev ! 0) AND 0x0F = 0xD
        then Inr (pressureChange zs self (ev ! 0 AND 0x0F) (ev ! 1 AND 0x7F))
      else Inr (self, []))"
  using assms by (simp add: midi_event_def midi_consts Let_def)

lemma cc_change_eq:
  "cc_change self ccnum ccval =
     (if cc_mixer_channel ccnum > -1
      then (case int_truediv ccval 127 of
              Inl e \<Rightarrow> Inl e
            | Inr level \<Rightarrow> Inr (self, [SetLevel (cc_mixer_channel ccnum) level]))
      else Inr (self, []))"
  by (simp add: cc_change_def MAX_DIAL_def Let_def)

text \<open>A value in 0..127 divides without an exception, to a level between 0 and 1.\<close>

lemma cc_change_byte:
  assumes "0 \<le> ccval" and "ccval \<le> 127"
  shows "\<exists>level. int_truediv ccval 127 = Inr level \<and> 0 \<le> level \<and> level \<le> 1
           \<and> \<bar>level - of_int ccval / 127\<bar> \<le> 1 / 2 ^ 53
           \<and> cc_change self ccnum ccval =
               Inr (self, if cc_mixer_channel ccnum > -1
                          then [SetLevel (cc_mixer_channel ccnum) level] else [])"
proof -
  from int_truediv_byte [OF assms] obtain r where
    r: "int_truediv ccval 127 = Inr r" "0 \<le> r" "r \<le> 1" "\<bar>r - of_int ccval / 127\<bar> \<le> 1 / 2 ^ 53"
    by blast
  have "cc_change self ccnum ccval =
      Inr (self, if cc_mixer_channel ccnum > -1 then [SetLevel (cc_mixer_channel ccnum) r] else [])"
    by (simp add: cc_change_eq r(1))
  with r show ?thesis by blast
qed

lemma midi_event_returns:
  assumes "3 \<le> length ev"
  shows "\<exists>self' calls. midi_event zs self ev = Inr (self', calls) \<and>
           self' = (if drop_bit 4 (ev ! 0) AND 0x0F = 0x9
                      then self\<lparr>currentNotePressed := ev ! 1 AND 0x7F\<rparr>
                    else if drop_bit 4 (ev ! 0) AND 0x0F = 0x8
                      then self\<lparr>currentNotePressed := -1\<rparr>
                    else self)"
proof -
  from and_127_byte [of "ev ! 2"] cc_change_byte [of "ev ! 2 AND 0x7F" self "ev ! 1 AND 0x7F"]
  obtain calls where "cc_change self (ev ! 1 AND 0x7F) (ev ! 2 AND 0x7F) = Inr (self, calls)"
    by blast
  then show ?thesis
    by (simp add: midi_event_long [OF assms] note_on_def note_off_def pressureChange_def
        Let_def split: prod.splits)
qed

lemma note_on_eq:
  "note_on zs self n ch vel =
     (self\<lparr>currentNotePressed := n\<rparr>,
      GetPadFromXY (fst (get_note_xy n)) (fst (snd (get_note_xy n))) #
      (if 0 \<le> get_pad_from_xy zs (fst (get_note_xy n)) (fst (snd (get_note_xy n)))
       then [TogglePlayState (zynseq_bank zs)
               (get_pad_from_xy zs (fst (get_note_xy n)) (fst (snd (get_note_xy n))))]
       else []))"
  by (simp add: note_on_def Let_def split: prod.splits)

subsection \<open>Channel pressure\<close>

text \<open>
  C1. The claim: channel pressure that arrives while no note is held (the field holds
  \<^verbatim>\<open>-1\<close>) triggers no \<^verbatim>\<open>setPlayState\<close>, in particular after note-on(40), note-off(40),
  pressure(127). The handler does not look at the field before it uses it: on exactly
  that sequence of events, delivered to a fresh driver, the four calls are made, for the
  pad indices \<^verbatim>\<open>-1\<close>, 0, 1 and 2.
\<close>

theorem pressure_while_idle_sets_play_state:
  "midi_events \<lparr>zynseq_bank = 0, get_pad_from_xy = (\<lambda>x y. 4 * x + y)\<rparr> init_driver
     [[0x90, 40, 100], [0x80, 40, 0], [0xD0, 127, 0]] =
   Inr (init_driver,
        [GetPadFromXY 0 2, TogglePlayState 0 2,
         SetPlayState 0 (-1) 0, SetPlayState 0 0 0, SetPlayState 0 1 0, SetPlayState 0 2 0])"
  by (simp add: midi_event_long note_on_def note_off_def pressureChange_eq get_note_xy_def
      pad_consts init_driver_def)

text \<open>
  C2. While note \<open>n\<close> is held, a channel pressure of 127 makes exactly the four calls
  \<^verbatim>\<open>setPlayState(bank, n, 0)\<close>, \<^verbatim>\<open>(bank, n+1, 0)\<close>, \<^verbatim>\<open>(bank, n+2, 0)\<close>,
  \<^verbatim>\<open>(bank, n+3, 0)\<close>, in this order, and any other pressure makes no call at all. This
  holds of the handler and of a channel-pressure event (status high nibble 0xD, the
  pressure in the second entry) sent through the dispatcher.
\<close>

theorem pressureChange_scene_launch:
  assumes "currentNotePressed self = n"
  shows "pressureChange zs self channel v =
           (self, if v = 127
                  then [SetPlayState (zynseq_bank zs) n 0, SetPlayState (zynseq_bank zs) (n + 1) 0,
                        SetPlayState (zynseq_bank zs) (n + 2) 0, SetPlayState (zynseq_bank zs) (n + 3) 0]
                  else [])
         \<and> (3 \<le> length ev \<and> drop_bit 4 (ev ! 0) AND 0x0F = 0xD \<longrightarrow>
              midi_event zs self ev =
                Inr (self, if ev ! 1 AND 0x7F = 127
                  then [SetPlayState (zynseq_bank zs) n 0, SetPlayState (zynseq_bank zs) (n + 1) 0,
                        SetPlayState (zynseq_bank zs) (n + 2) 0, SetPlayState (zynseq_bank zs) (n + 3) 0]
                  else []))"
  using assms by (simp add: midi_event_long pressureChange_eq)

text \<open>Note-on(40), then pressure 127 and pressure 100 on channel 9.\<close>

theorem pressureChange_scene_launch_witness:
  "currentNotePressed (fst (note_on \<lparr>zynseq_bank = 5, get_pad_from_xy = (\<lambda>x y. 4 * x + y)\<rparr> init_driver 40 9 100)) = 40
   \<and> snd (pressureChange \<lparr>zynseq_bank = 5, get_pad_from_xy = (\<lambda>x y. 4 * x + y)\<rparr>
        (fst (note_on \<lparr>zynseq_bank = 5, get_pad_from_xy = (\<lambda>x y. 4 * x + y)\<rparr> init_driver 40 9 100)) 9 127)
       = [SetPlayState 5 40 0, SetPlayState 5 41 0, SetPlayState 5 42 0, SetPlayState 5 43 0]
   \<and> snd (pressureChange \<lparr>zynseq_bank = 5, get_pad_from_xy = (\<lambda>x y. 4 * x + y)\<rparr>
        (fst (note_on \<lparr>zynseq_bank = 5, get_pad_from_xy = (\<lambda>x y. 4 * x + y)\<rparr> init_driver 40 9 100)) 9 100)
       = []
   \<and> 3 \<le> length [0xD9, 127, 0 :: int] \<and> drop_bit 4 ([0xD9, 127, 0 :: int] ! 0) AND 0x0F = 0xD
   \<and> midi_event \<lparr>zynseq_bank = 5, get_pad_from_xy = (\<lambda>x y. 4 * x + y)\<rparr>
        (fst (note_on \<lparr>zynseq_bank = 5, get_pad_from_xy = (\<lambda>x y. 4 * x + y)\<rparr> init_driver 40 9 100))
        [0xD9, 127, 0]
       = Inr (\<lparr>currentNotePressed = 40\<rparr>,
              [SetPlayState 5 40 0, SetPlayState 5 41 0, SetPlayState 5 42 0, SetPlayState 5 43 0])"
proof -
  let ?zs = "\<lparr>zynseq_bank = 5, get_pad_from_xy = (\<lambda>x y. 4 * x + y)\<rparr>"
  let ?self = "fst (note_on ?zs init_driver 40 9 100)"
  have held: "currentNotePressed ?self = 40"
    by (simp add: note_on_def Let_def split: prod.splits)
  have self: "?self = \<lparr>currentNotePressed = 40\<rparr>"
    by (simp add: note_on_def Let_def init_driver_def split: prod.splits)
  show ?thesis
    using held self
      pressureChange_scene_launch [OF held, of ?zs 9 127 "[0xD9, 127, 0]"]
      pressureChange_scene_launch [OF held, of ?zs 9 100 "[0xD9, 127, 0]"]
    by simp
qed

subsection \<open>Decoding a note\<close>

text \<open>
  C3. A note in 36..51 decodes to bank A with column \<open>(n - 36) mod 4\<close> and row
  \<open>3 - (n - 36) div 4\<close>; a note in 52..67 to bank B and a note in 68..83 to bank C, by the
  same formulas over \<open>n - 52\<close> and \<open>n - 68\<close>. Note 36 decodes to column 0, row 3, bank A;
  note 51 to column 3, row 0, bank A; note 83 to column 3, row 0, bank C.
\<close>

theorem get_note_xy_banks:
  "(36 \<le> n \<and> n \<le> 51 \<longrightarrow> get_note_xy n = ((n - 36) mod 4, 3 - (n - 36) div 4, ''A'')) \<and>
   (52 \<le> n \<and> n \<le> 67 \<longrightarrow> get_note_xy n = ((n - 52) mod 4, 3 - (n - 52) div 4, ''B'')) \<and>
   (68 \<le> n \<and> n \<le> 83 \<longrightarrow> get_note_xy n = ((n - 68) mod 4, 3 - (n - 68) div 4, ''C'')) \<and>
   get_note_xy 36 = (0, 3, ''A'') \<and> get_note_xy 51 = (3, 0, ''A'') \<and>
   get_note_xy 83 = (3, 0, ''C'')"
  by (simp add: get_note_xy_def pad_consts)

theorem get_note_xy_banks_witness:
  "(36::int) \<le> 41 \<and> (41::int) \<le> 51 \<and> get_note_xy 41 = (1, 2, ''A'') \<and>
   (52::int) \<le> 62 \<and> (62::int) \<le> 67 \<and> get_note_xy 62 = (2, 1, ''B'') \<and>
   (68::int) \<le> 68 \<and> (68::int) \<le> 83 \<and> get_note_xy 68 = (0, 3, ''C'')"
  using get_note_xy_banks [of 41] get_note_xy_banks [of 62] get_note_xy_banks [of 68]
  by simp

text \<open>
  C5. A note in 0..127 outside the three pad ranges decodes, without failing, to the empty
  bank with the coordinate taken against offset 0: column \<open>n mod 4\<close>, row \<open>3 - n div 4\<close>.
  An event of three entries never raises: the dispatcher returns a driver and a list of
  calls, whatever the three integers are.
\<close>

theorem out_of_range_note_total:
  "(0 \<le> n \<and> n \<le> 127 \<and> (n < 36 \<or> 83 < n) \<longrightarrow> get_note_xy n = (n mod 4, 3 - n div 4, ''''))
   \<and> (length ev = 3 \<longrightarrow> (\<exists>self' calls. midi_event zs self ev = Inr (self', calls)))"
proof -
  have "length ev = 3 \<longrightarrow> (\<exists>self' calls. midi_event zs self ev = Inr (self', calls))"
    using midi_event_returns [of ev zs self] by auto
  moreover have "0 \<le> n \<and> n \<le> 127 \<and> (n < 36 \<or> 83 < n) \<longrightarrow>
      get_note_xy n = (n mod 4, 3 - n div 4, '''')"
    by (auto simp add: get_note_xy_def pad_consts)
  ultimately show ?thesis by blast
qed

theorem out_of_range_note_total_witness:
  "(0::int) \<le> 100 \<and> (100::int) \<le> 127 \<and> (83::int) < 100 \<and> get_note_xy 100 = (0, -22, '''') \<and>
   (0::int) \<le> 20 \<and> (20::int) \<le> 127 \<and> (20::int) < 36 \<and> get_note_xy 20 = (0, -2, '''') \<and>
   length [0x90, 100, 64 :: int] = 3 \<and>
   (\<exists>self' calls. midi_event \<lparr>zynseq_bank = 0, get_pad_from_xy = (\<lambda>x y. -1)\<rparr> init_driver [0x90, 100, 64]
       = Inr (self', calls))"
  using out_of_range_note_total [of 100 "[0x90, 100, 64]" "\<lparr>zynseq_bank = 0, get_pad_from_xy = (\<lambda>x y. -1)\<rparr>" init_driver]
    out_of_range_note_total [of 20 "[0x90, 100, 64]" "\<lparr>zynseq_bank = 0, get_pad_from_xy = (\<lambda>x y. -1)\<rparr>" init_driver]
  by simp

text \<open>
  C6. For a note \<open>n\<close> in 0..15 the coordinate taken against offset 0 lies in the grid
  (column and row both in 0..3) and is the coordinate of the bank-A note \<open>n + 36\<close>. A
  note-on for \<open>n\<close> stores \<open>n\<close>, asks the sequencer for the pad at that coordinate and,
  when the sequencer answers with a pad index that is not negative, toggles that pad: the
  very calls a note-on for \<open>n + 36\<close> makes. It is not a no-op.
\<close>

theorem low_note_aliases_bank_A:
  assumes "0 \<le> n" and "n \<le> 15"
  shows "get_note_xy n = (n mod 4, 3 - n div 4, '''')
     \<and> 0 \<le> n mod 4 \<and> n mod 4 \<le> 3 \<and> 0 \<le> 3 - n div 4 \<and> 3 - n div 4 \<le> 3
     \<and> get_note_xy (n + 36) = (n mod 4, 3 - n div 4, ''A'')
     \<and> snd (note_on zs self n ch vel) = snd (note_on zs self (n + 36) ch vel)
     \<and> hd (snd (note_on zs self n ch vel)) = GetPadFromXY (n mod 4) (3 - n div 4)
     \<and> note_on zs self n ch vel =
         (self\<lparr>currentNotePressed := n\<rparr>,
          GetPadFromXY (n mod 4) (3 - n div 4) #
          (if 0 \<le> get_pad_from_xy zs (n mod 4) (3 - n div 4)
           then [TogglePlayState (zynseq_bank zs) (get_pad_from_xy zs (n mod 4) (3 - n div 4))]
           else []))
     \<and> (0 \<le> get_pad_from_xy zs (n mod 4) (3 - n div 4) \<longrightarrow>
          snd (note_on zs self n ch vel) =
            [GetPadFromXY (n mod 4) (3 - n div 4),
             TogglePlayState (zynseq_bank zs) (get_pad_from_xy zs (n mod 4) (3 - n div 4))]
          \<and> snd (note_on zs self (n + 36) ch vel) =
            [GetPadFromXY (n mod 4) (3 - n div 4),
             TogglePlayState (zynseq_bank zs) (get_pad_from_xy zs (n mod 4) (3 - n div 4))])"
proof -
  have lo: "get_note_xy n = (n mod 4, 3 - n div 4, '''')"
    using assms by (simp add: get_note_xy_def pad_consts)
  have hi: "get_note_xy (n + 36) = (n mod 4, 3 - n div 4, ''A'')"
    using assms by (simp add: get_note_xy_def pad_consts)
  have rng: "0 \<le> n mod 4 \<and> n mod 4 \<le> 3 \<and> 0 \<le> 3 - n div 4 \<and> 3 - n div 4 \<le> 3"
    using assms by presburger
  have calls: "snd (note_on zs self n ch vel) = snd (note_on zs self (n + 36) ch vel)"
    by (simp add: note_on_eq lo hi)
  have first: "hd (snd (note_on zs self n ch vel)) = GetPadFromXY (n mod 4) (3 - n div 4)"
    by (simp add: note_on_eq lo)
  have whole: "note_on zs self n ch vel =
         (self\<lparr>currentNotePressed := n\<rparr>,
          GetPadFromXY (n mod 4) (3 - n div 4) #
          (if 0 \<le> get_pad_from_xy zs (n mod 4) (3 - n div 4)
           then [TogglePlayState (zynseq_bank zs) (get_pad_from_xy zs (n mod 4) (3 - n div 4))]
           else []))"
    by (simp add: note_on_eq lo)
  have toggles: "0 \<le> get_pad_from_xy zs (n mod 4) (3 - n div 4) \<longrightarrow>
          snd (note_on zs self n ch vel) =
            [GetPadFromXY (n mod 4) (3 - n div 4),
             TogglePlayState (zynseq_bank zs) (get_pad_from_xy zs (n mod 4) (3 - n div 4))]
          \<and> snd (note_on zs self (n + 36) ch vel) =
            [GetPadFromXY (n mod 4) (3 - n div 4),
             TogglePlayState (zynseq_bank zs) (get_pad_from_xy zs (n mod 4) (3 - n div 4))]"
    by (simp add: note_on_eq lo hi)
  from lo hi rng calls first whole toggles show ?thesis by blast
qed

text \<open>Note 5 on a sequencer whose pad at column 1, row 2 is pad 6: the pad is toggled.\<close>

theorem low_note_aliases_bank_A_witness:
  "(0::int) \<le> 5 \<and> (5::int) \<le> 15 \<and> get_note_xy 5 = (1, 2, '''') \<and> get_note_xy 41 = (1, 2, ''A'')
   \<and> 0 \<le> get_pad_from_xy \<lparr>zynseq_bank = 0, get_pad_from_xy = (\<lambda>x y. 4 * x + y)\<rparr> 1 2
   \<and> note_on \<lparr>zynseq_bank = 0, get_pad_from_xy = (\<lambda>x y. 4 * x + y)\<rparr> init_driver 5 9 100
       = (\<lparr>currentNotePressed = 5\<rparr>, [GetPadFromXY 1 2, TogglePlayState 0 6])
   \<and> snd (note_on \<lparr>zynseq_bank = 0, get_pad_from_xy = (\<lambda>x y. 4 * x + y)\<rparr> init_driver 41 9 100)
       = [GetPadFromXY 1 2, TogglePlayState 0 6]"
  using low_note_aliases_bank_A [of 5 "\<lparr>zynseq_bank = 0, get_pad_from_xy = (\<lambda>x y. 4 * x + y)\<rparr>" init_driver 9 100]
  by (simp add: init_driver_def)

subsection \<open>Control change\<close>

text \<open>
  C4. The controller numbers 3, 9, 12, 13, 14, 15 resolve to the mixer channels
  0, 1, 2, 10, 11, 12; 16..21 resolve to \<open>ccnum - 16\<close> and 22..27 to \<open>ccnum - 22\<close>; a
  channel is resolved for these numbers and for no other. When a channel is resolved the
  value is divided and the mixer called with the quotient, and for a value in 0..127 the
  mixer is called exactly when a channel is resolved. The numbers 4..8, 10 and 11, inside
  the range of bank A, resolve no channel and cause no call.
\<close>

theorem cc_change_resolution:
  "cc_mixer_channel ccnum =
     (if ccnum = 3 then 0 else if ccnum = 9 then 1 else if ccnum = 12 then 2
      else if ccnum = 13 then 10 else if ccnum = 14 then 11 else if ccnum = 15 then 12
      else if 16 \<le> ccnum \<and> ccnum \<le> 21 then ccnum - 16
      else if 22 \<le> ccnum \<and> ccnum \<le> 27 then ccnum - 22
      else -1)
   \<and> (cc_mixer_channel ccnum > -1 \<longleftrightarrow>
        ccnum \<in> {3, 9, 12, 13, 14, 15} \<or> (16 \<le> ccnum \<and> ccnum \<le> 21) \<or> (22 \<le> ccnum \<and> ccnum \<le> 27))
   \<and> cc_change self ccnum ccval =
        (if cc_mixer_channel ccnum > -1
         then (case int_truediv ccval 127 of
                 Inl e \<Rightarrow> Inl e
               | Inr level \<Rightarrow> Inr (self, [SetLevel (cc_mixer_channel ccnum) level]))
         else Inr (self, []))
   \<and> (0 \<le> ccval \<and> ccval \<le> 127 \<longrightarrow>
        (\<exists>level. int_truediv ccval 127 = Inr level \<and>
           cc_change self ccnum ccval =
             Inr (self, if cc_mixer_channel ccnum > -1
                        then [SetLevel (cc_mixer_channel ccnum) level] else [])))
   \<and> (ccnum \<in> {4, 5, 6, 7, 8, 10, 11} \<longrightarrow>
        cc_mixer_channel ccnum = -1 \<and> cc_change self ccnum ccval = Inr (self, []))"
proof -
  have ch: "cc_mixer_channel ccnum =
     (if ccnum = 3 then 0 else if ccnum = 9 then 1 else if ccnum = 12 then 2
      else if ccnum = 13 then 10 else if ccnum = 14 then 11 else if ccnum = 15 then 12
      else if 16 \<le> ccnum \<and> ccnum \<le> 21 then ccnum - 16
      else if 22 \<le> ccnum \<and> ccnum \<le> 27 then ccnum - 22
      else -1)"
    by (rule cc_mixer_channel_eq)
  have res: "cc_mixer_channel ccnum > -1 \<longleftrightarrow>
        ccnum \<in> {3, 9, 12, 13, 14, 15} \<or> (16 \<le> ccnum \<and> ccnum \<le> 21) \<or> (22 \<le> ccnum \<and> ccnum \<le> 27)"
    unfolding ch by auto
  have call: "cc_change self ccnum ccval =
        (if cc_mixer_channel ccnum > -1
         then (case int_truediv ccval 127 of
                 Inl e \<Rightarrow> Inl e
               | Inr level \<Rightarrow> Inr (self, [SetLevel (cc_mixer_channel ccnum) level]))
         else Inr (self, []))"
    by (rule cc_change_eq)
  have byte: "0 \<le> ccval \<and> ccval \<le> 127 \<longrightarrow>
        (\<exists>level. int_truediv ccval 127 = Inr level \<and>
           cc_change self ccnum ccval =
             Inr (self, if cc_mixer_channel ccnum > -1
                        then [SetLevel (cc_mixer_channel ccnum) level] else []))"
    using cc_change_byte [of ccval self ccnum] by blast
  have none: "ccnum \<in> {4, 5, 6, 7, 8, 10, 11} \<longrightarrow> cc_mixer_channel ccnum = -1"
    unfolding ch by auto
  then have gaps: "ccnum \<in> {4, 5, 6, 7, 8, 10, 11} \<longrightarrow>
        cc_mixer_channel ccnum = -1 \<and> cc_change self ccnum ccval = Inr (self, [])"
    by (simp add: cc_change_eq)
  from ch res call byte gaps show ?thesis by blast
qed

theorem cc_change_resolution_witness:
  "(5::int) \<in> {4, 5, 6, 7, 8, 10, 11} \<and> cc_mixer_channel 5 = -1 \<and>
   cc_change init_driver 5 64 = Inr (init_driver, []) \<and>
   (0::int) \<le> 127 \<and> (127::int) \<le> 127 \<and>
   cc_mixer_channel 13 = 10 \<and> cc_change init_driver 13 127 = Inr (init_driver, [SetLevel 10 1]) \<and>
   cc_mixer_channel 21 = 5 \<and> cc_mixer_channel 27 = 5"
  using cc_change_resolution [of 5 init_driver 64] cc_change_resolution [of 13 init_driver 127]
    cc_change_resolution [of 21 init_driver 0] cc_change_resolution [of 27 init_driver 0]
  by (simp add: int_truediv_127_127)

text \<open>
  C7. A controller number below 3 or above 27 leaves the mixer channel at \<^verbatim>\<open>-1\<close>, and
  \<^verbatim>\<open>cc_change\<close> returns without a call.
\<close>

theorem cc_change_unmapped:
  assumes "ccnum < 3 \<or> 27 < ccnum"
  shows "cc_mixer_channel ccnum = -1 \<and> cc_change self ccnum ccval = Inr (self, [])"
  using assms by (auto simp add: cc_change_def cc_mixer_channel_eq Let_def)

theorem cc_change_unmapped_witness:
  "((0::int) < 3 \<or> (27::int) < 0) \<and> cc_change init_driver 0 64 = Inr (init_driver, []) \<and>
   ((1::int) < 3 \<or> (27::int) < 1) \<and> cc_change init_driver 1 64 = Inr (init_driver, []) \<and>
   ((2::int) < 3 \<or> (27::int) < 2) \<and> cc_change init_driver 2 64 = Inr (init_driver, []) \<and>
   ((28::int) < 3 \<or> (27::int) < 28) \<and> cc_change init_driver 28 64 = Inr (init_driver, []) \<and>
   ((100::int) < 3 \<or> (27::int) < 100) \<and> cc_change init_driver 100 64 = Inr (init_driver, [])"
  using cc_change_unmapped [of 0 init_driver 64] cc_change_unmapped [of 1 init_driver 64]
    cc_change_unmapped [of 2 init_driver 64] cc_change_unmapped [of 28 init_driver 64]
    cc_change_unmapped [of 100 init_driver 64]
  by simp

text \<open>
  C8, as amended. When a channel is resolved and the value is in 0..127, \<^verbatim>\<open>cc_change\<close>
  makes one call, \<^verbatim>\<open>set_level\<close> on that channel, with the level Python's
  \<^verbatim>\<open>ccval / 127\<close>: the double nearest to the quotient, no further from it than
  \<open>2 ^ (-53)\<close>. The level is exactly 1 for 127 and exactly 0 for 0; for 64 it is the double
  \<open>567382630219905 / 2 ^ 50\<close>, within a thousandth of 0.504; and it lies between 0 and 1
  for every value in 0..127.
\<close>

theorem cc_change_level:
  assumes "cc_mixer_channel ccnum > -1" and "0 \<le> ccval" and "ccval \<le> 127"
  shows "\<exists>level. cc_change self ccnum ccval = Inr (self, [SetLevel (cc_mixer_channel ccnum) level])
     \<and> int_truediv ccval 127 = Inr level
     \<and> 0 \<le> level \<and> level \<le> 1
     \<and> \<bar>level - of_int ccval / 127\<bar> \<le> 1 / 2 ^ 53
     \<and> (ccval = 127 \<longrightarrow> level = 1) \<and> (ccval = 0 \<longrightarrow> level = 0)
     \<and> (ccval = 64 \<longrightarrow> level = 567382630219905 / 1125899906842624
                        \<and> \<bar>level - 504 / 1000\<bar> < 1 / 1000)"
proof -
  from cc_change_byte [OF assms(2,3), of self ccnum] assms(1) obtain level where
    div: "int_truediv ccval 127 = Inr level" and
    rng: "0 \<le> level" "level \<le> 1" and
    near: "\<bar>level - of_int ccval / 127\<bar> \<le> 1 / 2 ^ 53" and
    call: "cc_change self ccnum ccval = Inr (self, [SetLevel (cc_mixer_channel ccnum) level])"
    by auto
  have top: "ccval = 127 \<longrightarrow> level = 1"
    using div by (auto simp add: int_truediv_127_127)
  have bot: "ccval = 0 \<longrightarrow> level = 0"
    using div by (auto simp add: int_truediv_0_127)
  have mid: "ccval = 64 \<longrightarrow> level = 567382630219905 / 1125899906842624
                        \<and> \<bar>level - 504 / 1000\<bar> < 1 / 1000"
    using div by (auto simp add: int_truediv_64_127)
  from call div rng near top bot mid show ?thesis by blast
qed

theorem cc_change_level_witness:
  "cc_mixer_channel 9 > -1 \<and> (0::int) \<le> 64 \<and> (64::int) \<le> 127 \<and>
   cc_change init_driver 9 127 = Inr (init_driver, [SetLevel 1 1]) \<and>
   cc_change init_driver 9 0 = Inr (init_driver, [SetLevel 1 0]) \<and>
   cc_change init_driver 9 64 =
     Inr (init_driver, [SetLevel 1 (567382630219905 / 1125899906842624)])"
proof -
  have r: "cc_mixer_channel 9 > -1" "cc_mixer_channel 9 = 1"
    by (simp_all add: cc_mixer_channel_eq)
  show ?thesis
    using r cc_change_level [OF r(1), of 127 init_driver] cc_change_level [OF r(1), of 0 init_driver]
      cc_change_level [OF r(1), of 64 init_driver]
    by auto
qed

text \<open>
  C8 as it was stated takes the level to be the quotient in exact arithmetic. For the
  value 64 on controller 9 the level handed over is the double above, which is not
  \<open>64 / 127\<close>: no double is, 127 being no power of two.
\<close>

theorem cc_change_level_not_exact:
  "cc_change init_driver 9 64 =
     Inr (init_driver, [SetLevel 1 (567382630219905 / 1125899906842624)])
   \<and> (567382630219905 / 1125899906842624 :: rat) \<noteq> 64 / 127"
  by (simp add: cc_change_eq cc_mixer_channel_eq int_truediv_64_127)

subsection \<open>Note on and note off\<close>

text \<open>
  C9. When the sequencer answers the decoded coordinate with a negative pad index,
  \<^verbatim>\<open>note_on\<close> makes no \<^verbatim>\<open>togglePlayState\<close> call; when the index is not negative it
  toggles that pad in the sequencer's bank. A toggle is among the calls exactly when the
  index is not negative.
\<close>

theorem note_on_toggle_guard:
  assumes "get_note_xy n = (col, row, b)"
  shows "(get_pad_from_xy zs col row < 0 \<longrightarrow>
            note_on zs self n ch vel = (self\<lparr>currentNotePressed := n\<rparr>, [GetPadFromXY col row]))
     \<and> (0 \<le> get_pad_from_xy zs col row \<longrightarrow>
            note_on zs self n ch vel =
              (self\<lparr>currentNotePressed := n\<rparr>,
               [GetPadFromXY col row, TogglePlayState (zynseq_bank zs) (get_pad_from_xy zs col row)]))
     \<and> ((\<exists>bk p. TogglePlayState bk p \<in> set (snd (note_on zs self n ch vel)))
          \<longleftrightarrow> 0 \<le> get_pad_from_xy zs col row)"
  using assms by (auto simp add: note_on_eq)

theorem note_on_toggle_guard_witness:
  "get_note_xy 40 = (0, 2, ''A'')
   \<and> get_pad_from_xy \<lparr>zynseq_bank = 0, get_pad_from_xy = (\<lambda>x y. if y < 2 then 4 * x + y else -1)\<rparr> 0 2 < 0
   \<and> note_on \<lparr>zynseq_bank = 0, get_pad_from_xy = (\<lambda>x y. if y < 2 then 4 * x + y else -1)\<rparr> init_driver 40 9 100
       = (\<lparr>currentNotePressed = 40\<rparr>, [GetPadFromXY 0 2])
   \<and> get_note_xy 36 = (0, 3, ''A'')
   \<and> 0 \<le> get_pad_from_xy \<lparr>zynseq_bank = 0, get_pad_from_xy = (\<lambda>x y. 4 * x + y)\<rparr> 0 3
   \<and> note_on \<lparr>zynseq_bank = 0, get_pad_from_xy = (\<lambda>x y. 4 * x + y)\<rparr> init_driver 36 9 100
       = (\<lparr>currentNotePressed = 36\<rparr>, [GetPadFromXY 0 3, TogglePlayState 0 3])"
proof -
  have xy: "get_note_xy 40 = (0, 2, ''A'')" "get_note_xy 36 = (0, 3, ''A'')"
    by (simp_all add: get_note_xy_def pad_consts)
  show ?thesis
    using xy
      note_on_toggle_guard [OF xy(1), of "\<lparr>zynseq_bank = 0, get_pad_from_xy = (\<lambda>x y. if y < 2 then 4 * x + y else -1)\<rparr>" init_driver 9 100]
      note_on_toggle_guard [OF xy(2), of "\<lparr>zynseq_bank = 0, get_pad_from_xy = (\<lambda>x y. 4 * x + y)\<rparr>" init_driver 9 100]
    by (simp add: init_driver_def)
qed

text \<open>
  C10. \<^verbatim>\<open>note_on\<close> stores its note in \<^verbatim>\<open>currentNotePressed\<close> whatever the note and
  whatever the sequencer answers; \<^verbatim>\<open>note_off\<close> stores \<^verbatim>\<open>-1\<close> whatever note it names;
  \<^verbatim>\<open>cc_change\<close> and \<^verbatim>\<open>pressureChange\<close> leave the driver as it is (\<^verbatim>\<open>cc_change\<close>
  returns the driver it was given, for every value in 0..127 and whenever it returns at all;
  otherwise its division has overflowed). Through the dispatcher: after an event of at
  least three entries the field holds the masked second entry if the event is a note-on,
  \<^verbatim>\<open>-1\<close> if it is a note-off, and its old value for every other message type.
\<close>

theorem last_pressed_note_machine:
  "fst (note_on zs self n ch vel) = self\<lparr>currentNotePressed := n\<rparr>
   \<and> fst (note_off self n ch) = self\<lparr>currentNotePressed := -1\<rparr>
   \<and> (case cc_change self ccnum ccval of
         Inl e \<Rightarrow> e = OverflowError
       | Inr (self', calls) \<Rightarrow> self' = self)
   \<and> (0 \<le> ccval \<and> ccval \<le> 127 \<longrightarrow> (\<exists>calls. cc_change self ccnum ccval = Inr (self, calls)))
   \<and> fst (pressureChange zs self ch v) = self
   \<and> (3 \<le> length ev \<longrightarrow>
        (\<exists>self' calls. midi_event zs self ev = Inr (self', calls) \<and>
           self' = (if drop_bit 4 (ev ! 0) AND 0x0F = 0x9
                      then self\<lparr>currentNotePressed := ev ! 1 AND 0x7F\<rparr>
                    else if drop_bit 4 (ev ! 0) AND 0x0F = 0x8
                      then self\<lparr>currentNotePressed := -1\<rparr>
                    else self)))"
proof -
  have on: "fst (note_on zs self n ch vel) = self\<lparr>currentNotePressed := n\<rparr>"
    by (simp add: note_on_eq)
  have off: "fst (note_off self n ch) = self\<lparr>currentNotePressed := -1\<rparr>"
    by (simp add: note_off_def)
  have cc: "case cc_change self ccnum ccval of
         Inl e \<Rightarrow> e = OverflowError
       | Inr (self', calls) \<Rightarrow> self' = self"
    by (auto simp add: cc_change_eq split: sum.splits dest: int_truediv_127_error)
  have cc_byte: "0 \<le> ccval \<and> ccval \<le> 127 \<longrightarrow> (\<exists>calls. cc_change self ccnum ccval = Inr (self, calls))"
    using cc_change_byte [of ccval self ccnum] by blast
  have pr: "fst (pressureChange zs self ch v) = self"
    by (simp add: pressureChange_eq)
  have ev: "3 \<le> length ev \<longrightarrow>
        (\<exists>self' calls. midi_event zs self ev = Inr (self', calls) \<and>
           self' = (if drop_bit 4 (ev ! 0) AND 0x0F = 0x9
                      then self\<lparr>currentNotePressed := ev ! 1 AND 0x7F\<rparr>
                    else if drop_bit 4 (ev ! 0) AND 0x0F = 0x8
                      then self\<lparr>currentNotePressed := -1\<rparr>
                    else self))"
    using midi_event_returns [of ev zs self] by blast
  from on off cc cc_byte pr ev show ?thesis by blast
qed

theorem last_pressed_note_machine_witness:
  "3 \<le> length [0x90, 100, 64 :: int]
   \<and> midi_event \<lparr>zynseq_bank = 0, get_pad_from_xy = (\<lambda>x y. -1)\<rparr> \<lparr>currentNotePressed = 40\<rparr>
       [0x90, 100, 64] = Inr (\<lparr>currentNotePressed = 100\<rparr>, [GetPadFromXY 0 (-22)])
   \<and> fst (note_on \<lparr>zynseq_bank = 0, get_pad_from_xy = (\<lambda>x y. -1)\<rparr> \<lparr>currentNotePressed = 40\<rparr> 100 9 64)
       = \<lparr>currentNotePressed = 100\<rparr>
   \<and> fst (note_off \<lparr>currentNotePressed = 40\<rparr> 100 9) = \<lparr>currentNotePressed = -1\<rparr>
   \<and> (0::int) \<le> 64 \<and> (64::int) \<le> 127
   \<and> (\<exists>calls. cc_change \<lparr>currentNotePressed = 40\<rparr> 9 64 = Inr (\<lparr>currentNotePressed = 40\<rparr>, calls))
   \<and> fst (pressureChange \<lparr>zynseq_bank = 0, get_pad_from_xy = (\<lambda>x y. -1)\<rparr> \<lparr>currentNotePressed = 40\<rparr> 9 127)
       = \<lparr>currentNotePressed = 40\<rparr>"
proof -
  have xy: "get_note_xy 100 = (0, -22, '''')"
    by (simp add: get_note_xy_def pad_consts)
  show ?thesis
    using last_pressed_note_machine
      [where zs = "\<lparr>zynseq_bank = 0, get_pad_from_xy = (\<lambda>x y. -1)\<rparr>"
         and self = "\<lparr>currentNotePressed = 40\<rparr>" and n = 100 and ch = 9 and vel = 64
         and ccnum = 9 and ccval = 64 and v = 127 and ev = "[0x90, 100, 64]"]
    by (auto simp add: midi_event_long note_on_eq xy)
qed

end
